theory Spec2Isabelle
  imports Main
begin

section \<open>The file-lock facade of \<^verbatim>\<open>src/cpp/core/FileLock.cpp\<close>\<close>

text \<open>
  The translation unit defines three static members of \<^verbatim>\<open>FileLock\<close>, the factory
  \<^verbatim>\<open>FileLock::create\<close>, the static \<^verbatim>\<open>FileLock::refresh\<close>, the file-local helper
  \<^verbatim>\<open>schedulePeriodicExecution\<close> and \<^verbatim>\<open>FileLock::refreshPeriodically\<close>. The header
  \<^verbatim>\<open>core/FileLock.hpp\<close>, the two strategy classes and Boost.Asio are not part of the
  sources; what the functions below need of them is written out where it is used.
\<close>

subsection \<open>Data\<close>

text \<open>
  \<^verbatim>\<open>FileLock::LockType\<close> is a C++ enumeration; its enumerators are the two the source
  names. What a C++ program does with an object of the enumeration that holds neither
  is undefined and is not part of this development.
\<close>

datatype LockType = LOCKTYPE_ADVISORY | LOCKTYPE_LINKBASED

text \<open>The dynamic class of the object a \<^verbatim>\<open>boost::shared_ptr<FileLock>\<close> points to.\<close>

datatype FileLock = AdvisoryFileLock | LinkBasedFileLock

text \<open>
  Modelled from the spec: the error taxonomy of section 7 (\<^verbatim>\<open>AlreadyLocked\<close>,
  \<^verbatim>\<open>LockLost\<close>, \<^verbatim>\<open>IOError\<close>, \<^verbatim>\<open>ConfigurationError\<close>). No such type occurs in
  \<^verbatim>\<open>FileLock.cpp\<close>; it is declared here so that statements about error results can be
  written down.
\<close>

datatype LockError = AlreadyLocked | LockLost | IOError | ConfigurationError

text \<open>
  How a call that is to produce a value ends: with the value, or with an error of the
  taxonomy.
\<close>

datatype 'a completion = Value 'a | Failed LockError

text \<open>How a call of a \<^verbatim>\<open>void\<close> function ends: it returns, or an exception leaves it.\<close>

datatype outcome = Returned | Thrown

text \<open>
  A completion handler queued on the timer. The only handler the source ever queues is
  \<^verbatim>\<open>boost::bind(schedulePeriodicExecution, pTimer, interval, callback)\<close>, where
  \<^verbatim>\<open>pTimer\<close> is the address of the static timer of \<^verbatim>\<open>refreshPeriodically\<close> and
  \<^verbatim>\<open>callback\<close> is \<^verbatim>\<open>FileLock::refresh\<close>; the bound interval is what distinguishes
  one handler from another. The \<^verbatim>\<open>error_code\<close> argument the io_service passes to the
  handler is dropped by \<^verbatim>\<open>boost::bind\<close>.
\<close>

datatype handler = PeriodicExecution int

text \<open>
  \<^verbatim>\<open>boost::asio::deadline_timer\<close>, as far as the source uses it: the absolute expiry
  time (in seconds), the handlers of the pending \<^verbatim>\<open>async_wait\<close> operations, and the
  handlers of waits that were cancelled by a later \<^verbatim>\<open>expires_at\<close> and are still to be
  invoked (with \<^verbatim>\<open>operation_aborted\<close>).
\<close>

record deadline_timer =
  expiry :: int
  waiting :: "handler list"
  cancelled :: "handler list"

datatype call = Advisory_refresh | LinkBased_refresh

text \<open>
  What happens to the timer and the refresh, in the order in which it happens: a wait is
  started on the timer (with the expiry time it waits for), the io_service completes a
  wait by taking its handler off the timer (at the given time), an execution of
  \<^verbatim>\<open>FileLock::refresh\<close> begins, and it ends (by returning or by throwing).
\<close>

datatype event =
    Wait_started int
  | Wait_completed int
  | Refresh_began int
  | Refresh_ended int

text \<open>
  The state of one process. The first three fields are the static members
  \<^verbatim>\<open>FileLock::type_\<close>, \<^verbatim>\<open>FileLock::timeoutInterval_\<close> and \<^verbatim>\<open>FileLock::refreshRate_\<close>
  (Isabelle does not accept a name that ends in an underscore, hence the prefix).
  \<open>s_isRefreshing\<close> and \<open>timer\<close> are the two function-local statics of
  \<^verbatim>\<open>refreshPeriodically\<close>; the timer does not exist before control first passes its
  declaration. \<open>clock\<close> is the current time in seconds, \<open>calls\<close> the strategy refresh
  functions called so far, \<open>ticks\<close> the begin and end time of every execution of
  \<^verbatim>\<open>FileLock::refresh\<close> so far, \<open>errlog\<close> the error codes given to
  \<^verbatim>\<open>LOG_ERROR\<close>, and \<open>events\<close> the events so far, oldest first.
\<close>

record process =
  FileLock_type :: LockType
  FileLock_timeoutInterval :: int
  FileLock_refreshRate :: int
  s_isRefreshing :: bool
  timer :: "deadline_timer option"
  clock :: int
  calls :: "call list"
  ticks :: "(int \<times> int) list"
  errlog :: "nat list"
  events :: "event list"

text \<open>
  What the environment decides during one invocation of the scheduler: whether
  \<^verbatim>\<open>LinkBasedFileLock::refresh\<close> throws, how many seconds it runs, and the error code
  \<^verbatim>\<open>expires_at\<close> stores into \<^verbatim>\<open>errc\<close> (\<open>0\<close> is success; \<^verbatim>\<open>if (errc)\<close> tests
  for a value other than \<open>0\<close>).
\<close>

record tick_env =
  refresh_throws :: bool
  refresh_duration :: nat
  errc :: nat

subsection \<open>Static members and the factory\<close>

text \<open>
  Lines 26 to 28: the default values of the static members. The two statics of
  \<^verbatim>\<open>refreshPeriodically\<close> start as \<^verbatim>\<open>false\<close> and not yet constructed; time is counted
  from the start of the process.
\<close>

definition initial :: process where
  "initial =
     \<lparr> FileLock_type = LOCKTYPE_ADVISORY,
       FileLock_timeoutInterval = 30,
       FileLock_refreshRate = 20,
       s_isRefreshing = False,
       timer = None,
       clock = 0,
       calls = [],
       ticks = [],
       errlog = [],
       events = [] \<rparr>"

text \<open>
  \<^verbatim>\<open>FileLock::getLockType\<close> is declared in the header: the accessor of
  \<^verbatim>\<open>type_\<close>.
\<close>

definition getLockType :: "process \<Rightarrow> LockType" where
  "getLockType p = FileLock_type p"

text \<open>
  Lines 30 to 37. The \<^verbatim>\<open>switch\<close> has one \<^verbatim>\<open>case\<close> label per enumerator, each
  returning a new lock object of its class; there is no \<^verbatim>\<open>default\<close> and no error
  path.
\<close>

fun create :: "process \<Rightarrow> FileLock completion" where
  "create p =
     (case getLockType p of
        LOCKTYPE_ADVISORY \<Rightarrow> Value AdvisoryFileLock
      | LOCKTYPE_LINKBASED \<Rightarrow> Value LinkBasedFileLock)"

text \<open>
  Modelled from the spec: the configuration entry point is not in the sources (only the
  default values of the three statics are). Section 8 says that
  \<open>RefreshRate < TimeoutInterval\<close> is enforced at configuration time and that the inverse
  is rejected with \<^verbatim>\<open>ConfigurationError\<close>.
\<close>

definition configure :: "LockType \<Rightarrow> int \<Rightarrow> int \<Rightarrow> process \<Rightarrow> LockError + process" where
  "configure ty timeout rate p =
     (if rate < timeout
      then Inr (p\<lparr>FileLock_type := ty, FileLock_timeoutInterval := timeout,
                  FileLock_refreshRate := rate\<rparr>)
      else Inl ConfigurationError)"

subsection \<open>Refreshing\<close>

text \<open>
  Modelled from the spec: \<^verbatim>\<open>AdvisoryFileLock::refresh\<close> is not in the sources. Section
  4.1 says it is a no-op; the call itself is recorded.
\<close>

definition AdvisoryFileLock_refresh :: "process \<Rightarrow> outcome \<times> process" where
  "AdvisoryFileLock_refresh p = (Returned, p\<lparr>calls := calls p @ [Advisory_refresh]\<rparr>)"

text \<open>
  \<^verbatim>\<open>LinkBasedFileLock::refresh\<close> is not in the sources either. It works on the
  filesystem, which is not part of the state here: the call is recorded, it takes the
  time the environment says, and it returns or throws as the environment says.
\<close>

definition LinkBasedFileLock_refresh :: "tick_env \<Rightarrow> process \<Rightarrow> outcome \<times> process" where
  "LinkBasedFileLock_refresh env p =
     (if refresh_throws env then Thrown else Returned,
      p\<lparr>calls := calls p @ [LinkBased_refresh],
        clock := clock p + int (refresh_duration env)\<rparr>)"

text \<open>
  Lines 39 to 43: the two strategy functions, one after the other; an exception of the
  first would leave the function before the second is called. The begin and the end of
  the execution are recorded as events, and their times in \<open>ticks\<close>.
\<close>

definition FileLock_refresh :: "tick_env \<Rightarrow> process \<Rightarrow> outcome \<times> process" where
  "FileLock_refresh env p =
     (let begin = clock p;
          p0 = p\<lparr>events := events p @ [Refresh_began begin]\<rparr>
      in
      case AdvisoryFileLock_refresh p0 of
        (Thrown, p1) \<Rightarrow>
          (Thrown, p1\<lparr>ticks := ticks p1 @ [(begin, clock p1)],
                       events := events p1 @ [Refresh_ended (clock p1)]\<rparr>)
      | (Returned, p1) \<Rightarrow>
          (case LinkBasedFileLock_refresh env p1 of
             (r, p2) \<Rightarrow>
               (r, p2\<lparr>ticks := ticks p2 @ [(begin, clock p2)],
                       events := events p2 @ [Refresh_ended (clock p2)]\<rparr>)))"

subsection \<open>The scheduler\<close>

text \<open>
  \<^verbatim>\<open>deadline_timer::expires_at(time, errc)\<close>: sets the expiry time and cancels every
  pending wait, whose handler is then due with \<^verbatim>\<open>operation_aborted\<close>. When the
  operation reports an error the timer is left as it was.
\<close>

definition set_expires_at :: "int \<Rightarrow> nat \<Rightarrow> deadline_timer \<Rightarrow> deadline_timer" where
  "set_expires_at time ec t =
     (if ec \<noteq> 0 then t
      else t\<lparr>expiry := time, waiting := [], cancelled := cancelled t @ waiting t\<rparr>)"

text \<open>\<^verbatim>\<open>deadline_timer::async_wait(handler)\<close>: one more pending wait.\<close>

definition async_wait :: "handler \<Rightarrow> deadline_timer \<Rightarrow> deadline_timer" where
  "async_wait h t = t\<lparr>waiting := waiting t @ [h]\<rparr>"

text \<open>
  Lines 47 to 76. \<open>t\<close> is the timer \<^verbatim>\<open>pTimer\<close> points to, \<open>ec\<close> the error code that
  \<^verbatim>\<open>expires_at\<close> reports. The whole body is one \<^verbatim>\<open>try\<close> block whose \<^verbatim>\<open>catch (...)\<close>
  is empty: when the callback throws, the statements after it in the block are skipped.
  The result says how the call itself ends, and gives the timer and the process after it.
  The wait that \<^verbatim>\<open>async_wait\<close> starts is recorded as an event, with the expiry time
  it waits for.
\<close>

definition schedulePeriodicExecution ::
  "deadline_timer \<Rightarrow> int \<Rightarrow> (process \<Rightarrow> outcome \<times> process) \<Rightarrow> nat \<Rightarrow> process
     \<Rightarrow> outcome \<times> deadline_timer \<times> process" where
  "schedulePeriodicExecution t interval callback ec p =
     (case callback p of
        (Thrown, p1) \<Rightarrow> (Returned, t, p1)
      | (Returned, p1) \<Rightarrow>
          (let t1 = set_expires_at (expiry t + interval) ec t in
           if ec \<noteq> 0 then (Returned, t1, p1\<lparr>errlog := errlog p1 @ [ec]\<rparr>)
           else (Returned, async_wait (PeriodicExecution interval) t1,
                 p1\<lparr>events := events p1 @ [Wait_started (expiry t1)]\<rparr>)))"

text \<open>
  Lines 80 to 91. The timer is constructed with \<^verbatim>\<open>(service, interval)\<close>, that is, to
  expire \<open>interval\<close> seconds from now, the first time control passes its declaration.
\<close>

definition refreshPeriodically :: "int \<Rightarrow> tick_env \<Rightarrow> process \<Rightarrow> process" where
  "refreshPeriodically interval env p =
     (if s_isRefreshing p then p
      else
        let p1 = p\<lparr>s_isRefreshing := True\<rparr>;
            t = (case timer p1 of
                   None \<Rightarrow> \<lparr>expiry = clock p1 + interval, waiting = [], cancelled = []\<rparr>
                 | Some t0 \<Rightarrow> t0)
        in case schedulePeriodicExecution t interval (FileLock_refresh env) (errc env) p1 of
             (r, t', p2) \<Rightarrow> p2\<lparr>timer := Some t'\<rparr>)"

subsection \<open>The io_service\<close>

text \<open>
  The handler the io_service would invoke next on a timer at time \<open>now\<close>, and the timer
  without it: a handler of a cancelled wait is due at once, a handler of a pending wait
  once the expiry time has been reached.
\<close>

fun next_handler :: "int \<Rightarrow> deadline_timer \<Rightarrow> (handler \<times> deadline_timer) option" where
  "next_handler now t =
     (case cancelled t of
        h # hs \<Rightarrow> Some (h, t\<lparr>cancelled := hs\<rparr>)
      | [] \<Rightarrow>
        (case waiting t of
           h # hs \<Rightarrow> if expiry t \<le> now then Some (h, t\<lparr>waiting := hs\<rparr>) else None
         | [] \<Rightarrow> None))"

text \<open>Invoking the bound handler calls \<^verbatim>\<open>schedulePeriodicExecution\<close> with the bound arguments.\<close>

fun invoke :: "handler \<Rightarrow> deadline_timer \<Rightarrow> tick_env \<Rightarrow> process \<Rightarrow> process" where
  "invoke (PeriodicExecution interval) t env p =
     (case schedulePeriodicExecution t interval (FileLock_refresh env) (errc env) p of
        (r, t', p') \<Rightarrow> p'\<lparr>timer := Some t'\<rparr>)"

text \<open>
  One turn of the io_service, \<open>dt\<close> seconds after the last event: at most one due handler
  is taken off the timer, which completes its wait, and invoked.
\<close>

definition run_one :: "nat \<Rightarrow> tick_env \<Rightarrow> process \<Rightarrow> process" where
  "run_one dt env p =
     (let p1 = p\<lparr>clock := clock p + int dt\<rparr> in
      case timer p1 of
        None \<Rightarrow> p1
      | Some t \<Rightarrow>
        (case next_handler (clock p1) t of
           None \<Rightarrow> p1
         | Some (h, t') \<Rightarrow>
             invoke h t' env (p1\<lparr>events := events p1 @ [Wait_completed (clock p1)]\<rparr>)))"

text \<open>
  What can happen to the scheduler in a process: a caller calls \<^verbatim>\<open>refreshPeriodically\<close>,
  or the io_service takes a turn. The two function-local statics are reachable from
  nowhere else.
\<close>

datatype action = Call_refreshPeriodically int tick_env | Run_one nat tick_env

fun step :: "process \<Rightarrow> action \<Rightarrow> process" where
  "step p (Call_refreshPeriodically interval env) = refreshPeriodically interval env p"
| "step p (Run_one dt env) = run_one dt env p"

definition run :: "process \<Rightarrow> action list \<Rightarrow> process" where
  "run p acts = foldl step p acts"

text \<open>The number of handlers queued on the timer of a process.\<close>

definition outstanding :: "process \<Rightarrow> nat" where
  "outstanding p =
     (case timer p of None \<Rightarrow> 0 | Some t \<Rightarrow> length (waiting t) + length (cancelled t))"

text \<open>
  The invariant of the scheduler: at most one handler is queued on the timer, the timer
  exists only once the flag is set, and the recorded executions of \<^verbatim>\<open>FileLock::refresh\<close>
  are in time order, one ending before the next begins, none ending in the future.
\<close>

definition well_scheduled :: "process \<Rightarrow> bool" where
  "well_scheduled p \<longleftrightarrow>
     outstanding p \<le> 1 \<and>
     (s_isRefreshing p \<or> timer p = None) \<and>
     sorted_wrt (\<lambda>a b. snd a \<le> fst b) (ticks p) \<and>
     list_all (\<lambda>a. fst a \<le> snd a \<and> snd a \<le> clock p) (ticks p)"

subsection \<open>Orderly event sequences\<close>

text \<open>
  Reading the events in order, with the expiry time of the outstanding wait (if any),
  whether a refresh is running, and the time of the latest event. A wait may be started
  only while no wait is outstanding and no refresh is running; a wait may be completed
  only if one is outstanding, no earlier than the expiry time it waits for; a refresh may
  begin only while no wait is outstanding and no refresh is running; a refresh may end
  only if one is running; and time never goes back. \<open>None\<close> is the result when an
  event breaks one of these rules.
\<close>

fun scan :: "(int option \<times> bool \<times> int) option \<Rightarrow> event \<Rightarrow> (int option \<times> bool \<times> int) option" where
  "scan None e = None"
| "scan (Some (pending, running, latest)) (Wait_started d) =
     (if pending = None \<and> \<not> running then Some (Some d, False, latest) else None)"
| "scan (Some (pending, running, latest)) (Wait_completed t) =
     (case pending of
        None \<Rightarrow> None
      | Some d \<Rightarrow> if \<not> running \<and> d \<le> t \<and> latest \<le> t then Some (None, False, t) else None)"
| "scan (Some (pending, running, latest)) (Refresh_began t) =
     (if pending = None \<and> \<not> running \<and> latest \<le> t then Some (None, True, t) else None)"
| "scan (Some (pending, running, latest)) (Refresh_ended t) =
     (if running \<and> latest \<le> t then Some (pending, False, t) else None)"

text \<open>An event sequence that breaks none of the rules, read from time \<open>t0\<close> on.\<close>

definition well_sequenced :: "int \<Rightarrow> event list \<Rightarrow> bool" where
  "well_sequenced t0 es \<longleftrightarrow> foldl scan (Some (None, False, t0)) es \<noteq> None"

text \<open>The expiry times of the waits that were started, in order.\<close>

fun deadlines :: "event list \<Rightarrow> int list" where
  "deadlines [] = []"
| "deadlines (Wait_started d # es) = d # deadlines es"
| "deadlines (e # es) = deadlines es"


text \<open>The expiry time the outstanding wait of a process waits for.\<close>

definition pending_wait :: "process \<Rightarrow> int option" where
  "pending_wait p =
     (case timer p of
        None \<Rightarrow> None
      | Some t \<Rightarrow> if waiting t = [] then None else Some (expiry t))"

text \<open>
  The invariant behind orderly event sequences: the timer exists only once the flag is
  set, it has no cancelled wait and at most one pending one, and the events so far are
  orderly and end with no refresh running and with the wait of the timer outstanding.
\<close>

definition in_sequence :: "int \<Rightarrow> process \<Rightarrow> bool" where
  "in_sequence t0 p \<longleftrightarrow>
     (s_isRefreshing p \<or> timer p = None) \<and>
     (case timer p of
        None \<Rightarrow> True
      | Some t \<Rightarrow> cancelled t = [] \<and> length (waiting t) \<le> 1) \<and>
     (\<exists>l. l \<le> clock p \<and>
        foldl scan (Some (None, False, t0)) (events p) = Some (pending_wait p, False, l))"

text \<open>
  The invariant of a chain that was started at time \<open>t0\<close> with interval \<open>i\<close>: the only
  handler ever queued is bound to \<open>i\<close>, the expiry time of the timer and the expiry times
  of all waits started lie on the grid \<open>t0 + i * k\<close>, one grid point per execution of
  the refresh, and no execution after the first begins before its grid point.
\<close>

definition on_grid :: "int \<Rightarrow> int \<Rightarrow> process \<Rightarrow> bool" where
  "on_grid i t0 p \<longleftrightarrow>
     s_isRefreshing p \<and>
     (\<exists>t. timer p = Some t \<and> cancelled t = [] \<and>
        (waiting t = [] \<or> waiting t = [PeriodicExecution i]) \<and>
        expiry t = t0 + i * (int (length (ticks p)) + int (length (waiting t))) \<and>
        Suc (length (deadlines (events p))) = length (ticks p) + length (waiting t)) \<and>
     deadlines (events p) =
       map (\<lambda>k. t0 + i * (int k + 2)) [0..<length (deadlines (events p))] \<and>
     (\<forall>n. Suc n < length (ticks p) \<longrightarrow> t0 + i * (int n + 2) \<le> fst (ticks p ! Suc n))"

subsection \<open>Environments used in the examples\<close>

text \<open>
  A refresh that returns at once and a re-arm that succeeds; a refresh that throws; a
  refresh that runs for 50 seconds; one that runs for 100 seconds; a re-arm whose
  \<^verbatim>\<open>expires_at\<close> reports error code 5.
\<close>

definition quiet_tick :: tick_env where
  "quiet_tick = \<lparr>refresh_throws = False, refresh_duration = 0, errc = 0\<rparr>"

definition throwing_tick :: tick_env where
  "throwing_tick = \<lparr>refresh_throws = True, refresh_duration = 0, errc = 0\<rparr>"

definition slow_tick :: tick_env where
  "slow_tick = \<lparr>refresh_throws = False, refresh_duration = 50, errc = 0\<rparr>"

definition very_slow_tick :: tick_env where
  "very_slow_tick = \<lparr>refresh_throws = False, refresh_duration = 100, errc = 0\<rparr>"

definition failing_rearm :: tick_env where
  "failing_rearm = \<lparr>refresh_throws = False, refresh_duration = 0, errc = 5\<rparr>"

section \<open>Properties\<close>

subsection \<open>What one call computes\<close>

text \<open>
  \<^verbatim>\<open>FileLock::refresh\<close> and a scheduler invocation whose callback it is, as one update
  of the state each.
\<close>

lemma FileLock_refresh_eq:
  "FileLock_refresh env p =
     (if refresh_throws env then Thrown else Returned,
      p\<lparr>clock := clock p + int (refresh_duration env),
        calls := calls p @ [Advisory_refresh, LinkBased_refresh],
        ticks := ticks p @ [(clock p, clock p + int (refresh_duration env))],
        events := events p @ [Refresh_began (clock p),
          Refresh_ended (clock p + int (refresh_duration env))]\<rparr>)"
  by (simp add: FileLock_refresh_def AdvisoryFileLock_refresh_def LinkBasedFileLock_refresh_def
      Let_def)

lemma schedulePeriodicExecution_refresh:
  "schedulePeriodicExecution t i (FileLock_refresh env) ec p =
     (Returned,
      (if \<not> refresh_throws env \<and> ec = 0
       then async_wait (PeriodicExecution i) (set_expires_at (expiry t + i) 0 t) else t),
      p\<lparr>clock := clock p + int (refresh_duration env),
        calls := calls p @ [Advisory_refresh, LinkBased_refresh],
        ticks := ticks p @ [(clock p, clock p + int (refresh_duration env))],
        errlog := (if \<not> refresh_throws env \<and> ec \<noteq> 0 then errlog p @ [ec] else errlog p),
        events := events p @ [Refresh_began (clock p),
          Refresh_ended (clock p + int (refresh_duration env))] @
          (if \<not> refresh_throws env \<and> ec = 0 then [Wait_started (expiry t + i)] else [])\<rparr>)"
  by (simp add: schedulePeriodicExecution_def FileLock_refresh_eq set_expires_at_def)

subsection \<open>Defaults and the factory\<close>

text \<open>
  C9: in a freshly started process the timeout interval is 30 seconds, the refresh rate
  is 20 seconds, so the refresh rate is below the timeout interval, and the lock type is
  the advisory one.
\<close>

theorem initial_configuration:
  "FileLock_timeoutInterval initial = 30 \<and> FileLock_refreshRate initial = 20 \<and>
   FileLock_refreshRate initial < FileLock_timeoutInterval initial \<and>
   FileLock_type initial = LOCKTYPE_ADVISORY"
  by (simp add: initial_def)

text \<open>
  C6: the factory reads the lock type of the process at the call; it returns an advisory
  lock when that type is \<^verbatim>\<open>LOCKTYPE_ADVISORY\<close> and a link-based lock when it is
  \<^verbatim>\<open>LOCKTYPE_LINKBASED\<close>, whatever the rest of the state is.
\<close>

theorem create_dispatch:
  "create (p\<lparr>FileLock_type := LOCKTYPE_ADVISORY\<rparr>) = Value AdvisoryFileLock \<and>
   create (p\<lparr>FileLock_type := LOCKTYPE_LINKBASED\<rparr>) = Value LinkBasedFileLock"
  by (simp add: getLockType_def)

text \<open>
  C8: configuration keeps the refresh rate below the timeout interval. A configuration
  whose refresh rate is not below its timeout interval is rejected with
  \<^verbatim>\<open>ConfigurationError\<close>, and an accepted one leaves the refresh rate below the timeout
  interval.
\<close>

theorem configure_enforces_rates:
  "(timeout \<le> rate \<longrightarrow> configure ty timeout rate p = Inl ConfigurationError) \<and>
   (\<forall>p'. configure ty timeout rate p = Inr p' \<longrightarrow>
      FileLock_refreshRate p' < FileLock_timeoutInterval p')"
  by (auto simp add: configure_def split: LockType.splits if_splits)

theorem configure_enforces_rates_witness:
  "configure LOCKTYPE_LINKBASED 20 30 initial = Inl ConfigurationError \<and>
   configure LOCKTYPE_ADVISORY 30 30 initial = Inl ConfigurationError \<and>
   (\<exists>p'. configure LOCKTYPE_LINKBASED 30 20 initial = Inr p' \<and>
      FileLock_refreshRate p' < FileLock_timeoutInterval p')"
  using configure_enforces_rates [of 20 30 LOCKTYPE_LINKBASED initial]
    configure_enforces_rates [of 30 30 LOCKTYPE_ADVISORY initial]
    configure_enforces_rates [of 30 20 LOCKTYPE_LINKBASED initial]
  by (simp add: configure_def)

subsection \<open>Refreshing\<close>

text \<open>
  C7: every call of \<^verbatim>\<open>FileLock::refresh\<close> calls \<^verbatim>\<open>AdvisoryFileLock::refresh\<close> and then
  \<^verbatim>\<open>LinkBasedFileLock::refresh\<close>, whatever the configured lock type and the rest of the
  state are, and whether or not the link-based refresh throws.
\<close>

theorem refresh_calls_both:
  "calls (snd (FileLock_refresh env p)) = calls p @ [Advisory_refresh, LinkBased_refresh]"
  by (simp add: FileLock_refresh_eq)

subsection \<open>Invariants of the scheduler\<close>

lemma refreshPeriodically_flagged:
  "s_isRefreshing p \<Longrightarrow> refreshPeriodically i env p = p"
  by (simp add: refreshPeriodically_def)

lemma refreshPeriodically_sets_flag:
  "s_isRefreshing (refreshPeriodically i env p)"
  by (simp add: refreshPeriodically_def schedulePeriodicExecution_refresh Let_def)

lemma invoke_flag:
  "s_isRefreshing (invoke h t env p) = s_isRefreshing p"
  by (cases h) (simp add: schedulePeriodicExecution_refresh)

lemma run_one_flag:
  "s_isRefreshing (run_one dt env p) = s_isRefreshing p"
  by (simp add: run_one_def Let_def invoke_flag split: option.splits list.splits)

lemma step_keeps_flag:
  "s_isRefreshing p \<Longrightarrow> s_isRefreshing (step p a)"
  by (cases a) (simp_all add: refreshPeriodically_flagged run_one_flag)

lemma run_keeps_flag:
  "s_isRefreshing p \<Longrightarrow> s_isRefreshing (run p acts)"
  unfolding run_def
  by (induction acts arbitrary: p) (simp_all add: step_keeps_flag del: step.simps)


text \<open>Once no handler is queued and the flag is set, nothing happens any more.\<close>

lemma run_one_stopped:
  "outstanding p = 0 \<Longrightarrow>
   outstanding (run_one dt env p) = 0 \<and> calls (run_one dt env p) = calls p"
  by (auto simp add: run_one_def outstanding_def split: option.splits)

lemma step_stopped:
  "s_isRefreshing p \<Longrightarrow> outstanding p = 0 \<Longrightarrow>
   outstanding (step p a) = 0 \<and> calls (step p a) = calls p"
  by (cases a) (simp_all add: refreshPeriodically_flagged run_one_stopped)

lemma run_stopped:
  "s_isRefreshing p \<Longrightarrow> outstanding p = 0 \<Longrightarrow>
   outstanding (run p acts) = 0 \<and> calls (run p acts) = calls p"
  unfolding run_def
proof (induction acts arbitrary: p)
  case Nil
  then show ?case by simp
next
  case (Cons a acts)
  have f: "s_isRefreshing (step p a)"
    using Cons.prems(1) by (rule step_keeps_flag)
  have s: "outstanding (step p a) = 0 \<and> calls (step p a) = calls p"
    using Cons.prems by (rule step_stopped)
  from Cons.IH [OF f] s show ?case by simp
qed

lemma well_scheduled_initial: "well_scheduled initial"
  by (simp add: well_scheduled_def initial_def outstanding_def)

lemma ticks_extend:
  assumes "sorted_wrt (\<lambda>a b. snd a \<le> fst b) (ts :: (int \<times> int) list)"
    and "list_all (\<lambda>a. fst a \<le> snd a \<and> snd a \<le> c) ts"
    and "c \<le> b" and "b \<le> e" and "e \<le> c'"
  shows "sorted_wrt (\<lambda>a b. snd a \<le> fst b) (ts @ [(b, e)]) \<and>
         list_all (\<lambda>a. fst a \<le> snd a \<and> snd a \<le> c') (ts @ [(b, e)])"
proof -
  from assms(2) have old: "\<forall>a\<in>set ts. fst a \<le> snd a \<and> snd a \<le> c"
    by (simp add: list_all_iff)
  from old assms(3) have "\<forall>a\<in>set ts. snd a \<le> b" by (meson order_trans)
  with assms(1) have sorted: "sorted_wrt (\<lambda>a b. snd a \<le> fst b) (ts @ [(b, e)])"
    by (simp add: sorted_wrt_append)
  from old assms(3-5) have "\<forall>a\<in>set ts. fst a \<le> snd a \<and> snd a \<le> c'" by (meson order_trans)
  with assms(4,5) have "list_all (\<lambda>a. fst a \<le> snd a \<and> snd a \<le> c') (ts @ [(b, e)])"
    by (simp add: list_all_iff)
  with sorted show ?thesis by simp
qed

lemma ticks_later:
  "list_all (\<lambda>a. fst a \<le> snd a \<and> snd a \<le> c) (ts :: (int \<times> int) list) \<Longrightarrow> c \<le> c' \<Longrightarrow>
   list_all (\<lambda>a. fst a \<le> snd a \<and> snd a \<le> c') ts"
  unfolding list_all_iff by (meson order_trans)

lemma well_scheduled_refreshPeriodically:
  assumes "well_scheduled p"
  shows "well_scheduled (refreshPeriodically i env p)"
proof (cases "s_isRefreshing p")
  case True
  then show ?thesis using assms by (simp add: refreshPeriodically_flagged)
next
  case False
  with assms have none: "timer p = None" by (simp add: well_scheduled_def)
  from assms have ts: "sorted_wrt (\<lambda>a b. snd a \<le> fst b) (ticks p)"
    "list_all (\<lambda>a. fst a \<le> snd a \<and> snd a \<le> clock p) (ticks p)"
    by (simp_all add: well_scheduled_def)
  have ext: "sorted_wrt (\<lambda>a b. snd a \<le> fst b)
        (ticks p @ [(clock p, clock p + int (refresh_duration env))]) \<and>
      list_all (\<lambda>a. fst a \<le> snd a \<and> snd a \<le> clock p + int (refresh_duration env))
        (ticks p @ [(clock p, clock p + int (refresh_duration env))])"
    by (rule ticks_extend [OF ts]) simp_all
  show ?thesis
    using False none ext
    by (simp add: well_scheduled_def refreshPeriodically_def schedulePeriodicExecution_refresh Let_def
        outstanding_def async_wait_def set_expires_at_def)
qed

lemma next_handler_count:
  "next_handler now t = Some (h, t') \<Longrightarrow>
   Suc (length (waiting t') + length (cancelled t')) = length (waiting t) + length (cancelled t)"
  by (auto split: list.splits if_splits)

lemma well_scheduled_run_one:
  assumes "well_scheduled p"
  shows "well_scheduled (run_one dt env p)"
proof (cases "timer p")
  case None
  from assms have "list_all (\<lambda>a. fst a \<le> snd a \<and> snd a \<le> clock p + int dt) (ticks p)"
    by (auto simp add: well_scheduled_def elim: ticks_later)
  with assms None show ?thesis
    by (simp add: run_one_def well_scheduled_def outstanding_def)
next
  case (Some t)
  with assms have flag: "s_isRefreshing p" by (simp add: well_scheduled_def)
  from assms have ts: "sorted_wrt (\<lambda>a b. snd a \<le> fst b) (ticks p)"
    by (simp add: well_scheduled_def)
  from assms have later: "list_all (\<lambda>a. fst a \<le> snd a \<and> snd a \<le> clock p + int dt) (ticks p)"
    by (auto simp add: well_scheduled_def elim: ticks_later)
  show ?thesis
  proof (cases "next_handler (clock p + int dt) t")
    case None
    with assms Some later show ?thesis
      by (simp add: run_one_def well_scheduled_def outstanding_def del: next_handler.simps)
  next
    case hd: (Some ht)
    obtain h t' where ht: "ht = (h, t')" by (cases ht)
    obtain i where h: "h = PeriodicExecution i" by (cases h)
    from assms Some have "length (waiting t) + length (cancelled t) \<le> 1"
      by (simp add: well_scheduled_def outstanding_def)
    with next_handler_count [OF hd [unfolded ht]]
    have "length (waiting t') = 0 \<and> length (cancelled t') = 0" by arith
    then have empty: "waiting t' = []" "cancelled t' = []" by simp_all
    have ext: "sorted_wrt (\<lambda>a b. snd a \<le> fst b)
        (ticks p @ [(clock p + int dt, clock p + int dt + int (refresh_duration env))]) \<and>
      list_all (\<lambda>a. fst a \<le> snd a \<and> snd a \<le> clock p + int dt + int (refresh_duration env))
        (ticks p @ [(clock p + int dt, clock p + int dt + int (refresh_duration env))])"
      by (rule ticks_extend [OF ts later]) simp_all
    show ?thesis
      using Some hd ht h empty flag ext
      by (simp add: run_one_def well_scheduled_def schedulePeriodicExecution_refresh outstanding_def Let_def
          async_wait_def set_expires_at_def del: next_handler.simps)
  qed
qed

lemma well_scheduled_step: "well_scheduled p \<Longrightarrow> well_scheduled (step p a)"
  by (cases a) (simp_all add: well_scheduled_refreshPeriodically well_scheduled_run_one)

lemma well_scheduled_run: "well_scheduled p \<Longrightarrow> well_scheduled (run p acts)"
  unfolding run_def
  by (induction acts arbitrary: p) (simp_all add: well_scheduled_step del: step.simps)

lemma dispatch_leaves_none:
  assumes "well_scheduled p" and "timer p = Some t" and "next_handler now t = Some (h, t')"
  shows "waiting t' = [] \<and> cancelled t' = []"
proof -
  from assms(1,2) have "length (waiting t) + length (cancelled t) \<le> 1"
    by (simp add: well_scheduled_def outstanding_def)
  with next_handler_count [OF assms(3)]
  have "length (waiting t') = 0 \<and> length (cancelled t') = 0" by arith
  then show ?thesis by simp
qed

text \<open>The event sequence of every run is orderly.\<close>

lemma in_sequence_initial: "in_sequence t0 (initial\<lparr>clock := t0\<rparr>)"
  by (simp add: in_sequence_def initial_def pending_wait_def)

lemma in_sequence_refreshPeriodically:
  assumes "in_sequence t0 p"
  shows "in_sequence t0 (refreshPeriodically i env p)"
proof (cases "s_isRefreshing p")
  case True
  then show ?thesis using assms by (simp add: refreshPeriodically_flagged)
next
  case False
  with assms have none: "timer p = None" by (simp add: in_sequence_def)
  from assms none obtain l where l: "l \<le> clock p"
    "foldl scan (Some (None, False, t0)) (events p) = Some (None, False, l)"
    by (auto simp add: in_sequence_def pending_wait_def)
  show ?thesis
    using False none l
    by (simp add: in_sequence_def refreshPeriodically_def schedulePeriodicExecution_refresh
        Let_def pending_wait_def async_wait_def set_expires_at_def)
qed

lemma in_sequence_run_one:
  assumes "in_sequence t0 p"
  shows "in_sequence t0 (run_one dt env p)"
proof (cases "timer p")
  case None
  with assms show ?thesis
    by (auto simp add: run_one_def in_sequence_def pending_wait_def)
next
  case (Some t)
  with assms have flag: "s_isRefreshing p" by (simp add: in_sequence_def)
  from assms Some have t: "cancelled t = []" "length (waiting t) \<le> 1"
    by (simp_all add: in_sequence_def)
  from assms obtain l where l: "l \<le> clock p"
    "foldl scan (Some (None, False, t0)) (events p) = Some (pending_wait p, False, l)"
    by (auto simp add: in_sequence_def)
  show ?thesis
  proof (cases "next_handler (clock p + int dt) t")
    case None
    have "l \<le> clock p + int dt" using l(1) by simp
    with None Some flag t l(2) show ?thesis
      by (auto simp add: run_one_def in_sequence_def pending_wait_def simp del: next_handler.simps)
  next
    case hd: (Some ht)
    obtain h t' where ht: "ht = (h, t')" by (cases ht)
    obtain j where h: "h = PeriodicExecution j" by (cases h)
    from hd ht t have w: "waiting t = [h]" "expiry t \<le> clock p + int dt" "t' = t\<lparr>waiting := []\<rparr>"
      by (auto split: list.splits if_splits)
    from l(2) Some w(1) have sc:
      "foldl scan (Some (None, False, t0)) (events p) = Some (Some (expiry t), False, l)"
      by (simp add: pending_wait_def)
    show ?thesis
      using Some hd ht h flag t w sc l(1)
      by (simp add: run_one_def in_sequence_def schedulePeriodicExecution_refresh Let_def
          pending_wait_def async_wait_def set_expires_at_def del: next_handler.simps)
  qed
qed

lemma in_sequence_step: "in_sequence t0 p \<Longrightarrow> in_sequence t0 (step p a)"
  by (cases a) (simp_all add: in_sequence_refreshPeriodically in_sequence_run_one)

lemma in_sequence_run: "in_sequence t0 p \<Longrightarrow> in_sequence t0 (run p acts)"
  unfolding run_def
  by (induction acts arbitrary: p) (simp_all add: in_sequence_step del: step.simps)

lemma in_sequence_well_sequenced: "in_sequence t0 p \<Longrightarrow> well_sequenced t0 (events p)"
  by (auto simp add: in_sequence_def well_sequenced_def)

text \<open>A chain, once started, stays on its grid; calls after the first are skipped.\<close>

lemma deadlines_append: "deadlines (es @ fs) = deadlines es @ deadlines fs"
  by (induction es rule: deadlines.induct) simp_all


lemma on_grid_first_call: "on_grid i t0 (refreshPeriodically i env (initial\<lparr>clock := t0\<rparr>))"
  by (simp add: on_grid_def refreshPeriodically_def schedulePeriodicExecution_refresh Let_def
      async_wait_def set_expires_at_def initial_def algebra_simps)

lemma grid_extend:
  assumes "ds = map (\<lambda>k. t0 + i * (int k + 2)) [0..<length ds]"
    and "d = t0 + i * (int (length ds) + 2)"
  shows "ds @ [d] = map (\<lambda>k. t0 + i * (int k + 2)) [0..<length (ds @ [d])]"
proof -
  have "map (\<lambda>k. t0 + i * (int k + 2)) [0..<length (ds @ [d])] =
      map (\<lambda>k. t0 + i * (int k + 2)) [0..<length ds] @ [t0 + i * (int (length ds) + 2)]"
    by simp
  with assms show ?thesis by simp
qed

lemma bound_extend:
  assumes "\<forall>n. Suc n < length ts \<longrightarrow> t0 + i * (int n + 2) \<le> fst (ts ! Suc n)"
    and "t0 + i * (int (length ts) + 1) \<le> b"
  shows "\<forall>n. Suc n < length (ts @ [(b, e)]) \<longrightarrow>
           t0 + i * (int n + 2) \<le> fst ((ts @ [(b, e :: int)]) ! Suc n)"
proof (intro allI impI)
  fix n
  assume n: "Suc n < length (ts @ [(b, e)])"
  show "t0 + i * (int n + 2) \<le> fst ((ts @ [(b, e)]) ! Suc n)"
  proof (cases "Suc n < length ts")
    case True
    with assms(1) show ?thesis by (simp add: nth_append)
  next
    case False
    with n have "Suc n = length ts" by simp
    then have k: "int n + 2 = int (length ts) + 1" by linarith
    have "t0 + i * (int n + 2) \<le> b" unfolding k by (rule assms(2))
    with \<open>Suc n = length ts\<close> show ?thesis by (simp add: nth_append)
  qed
qed

lemma on_grid_run_one:
  assumes "on_grid i t0 p"
  shows "on_grid i t0 (run_one dt env p)"
proof -
  from assms obtain t where t: "timer p = Some t" "cancelled t = []"
    "waiting t = [] \<or> waiting t = [PeriodicExecution i]"
    "expiry t = t0 + i * (int (length (ticks p)) + int (length (waiting t)))"
    "Suc (length (deadlines (events p))) = length (ticks p) + length (waiting t)"
    by (auto simp add: on_grid_def)
  from assms have flag: "s_isRefreshing p"
    and grid: "deadlines (events p) =
       map (\<lambda>k. t0 + i * (int k + 2)) [0..<length (deadlines (events p))]"
    and bound: "\<forall>n. Suc n < length (ticks p) \<longrightarrow> t0 + i * (int n + 2) \<le> fst (ticks p ! Suc n)"
    by (simp_all add: on_grid_def)
  show ?thesis
  proof (cases "next_handler (clock p + int dt) t")
    case None
    with assms t(1) show ?thesis
      by (simp add: run_one_def on_grid_def del: next_handler.simps)
  next
    case hd: (Some ht)
    obtain h t' where ht: "ht = (h, t')" by (cases ht)
    from hd ht t(2,3) have w: "waiting t = [PeriodicExecution i]" "h = PeriodicExecution i"
      "expiry t \<le> clock p + int dt" "t' = t\<lparr>waiting := []\<rparr>"
      by (auto split: list.splits if_splits)
    from t(4) w(1) have e: "expiry t = t0 + i * (int (length (ticks p)) + 1)" by simp
    from t(5) w(1) have len: "length (deadlines (events p)) = length (ticks p)" by simp
    have b: "\<forall>n. Suc n < length (ticks p @ [(clock p + int dt, clock p + int dt + int (refresh_duration env))]) \<longrightarrow>
        t0 + i * (int n + 2) \<le> fst ((ticks p @ [(clock p + int dt, clock p + int dt + int (refresh_duration env))]) ! Suc n)"
      by (rule bound_extend [OF bound]) (use e w(3) in simp)
    have g: "deadlines (events p) @ [expiry t + i] =
        map (\<lambda>k. t0 + i * (int k + 2)) [0..<length (deadlines (events p) @ [expiry t + i])]"
      by (rule grid_extend [OF grid]) (simp add: e len algebra_simps)
    have e2: "expiry t + i = t0 + i * (int (length (ticks p)) + 2)"
      by (simp add: e algebra_simps)
    have e0: "expiry t = t0 + i * (int (length (ticks p @
        [(clock p + int dt, clock p + int dt + int (refresh_duration env))])) + int 0)"
      by (simp add: e algebra_simps)
    have e1: "expiry t + i = t0 + i * (int (length (ticks p @
        [(clock p + int dt, clock p + int dt + int (refresh_duration env))])) + int 1)"
      by (simp add: e algebra_simps)
    have g': "deadlines (events p) @ [expiry t + i] =
        map (\<lambda>k. t0 + i * (int k + 2)) [0..<Suc (length (deadlines (events p)))]"
      using g by simp
    show ?thesis
    proof (cases "refresh_throws env")
      case True
      with t(1,2) hd ht w flag b grid e0 len show ?thesis
        by (simp add: run_one_def on_grid_def schedulePeriodicExecution_refresh Let_def
            deadlines_append del: next_handler.simps)
    next
      case False
      show ?thesis
      proof (cases "errc env = 0")
        case True
        with False t(1,2) hd ht w flag b g' e1 len show ?thesis
          by (simp add: run_one_def on_grid_def schedulePeriodicExecution_refresh Let_def
              async_wait_def set_expires_at_def deadlines_append
              del: next_handler.simps)
      next
        case nz: False
        with False t(1,2) hd ht w flag b grid e0 len show ?thesis
          by (simp add: run_one_def on_grid_def schedulePeriodicExecution_refresh Let_def
              deadlines_append del: next_handler.simps)
      qed
    qed
  qed
qed

lemma on_grid_step: "on_grid i t0 p \<Longrightarrow> on_grid i t0 (step p a)"
proof (cases a)
  case (Call_refreshPeriodically j f)
  assume g: "on_grid i t0 p"
  then have "s_isRefreshing p" by (simp add: on_grid_def)
  with g Call_refreshPeriodically show ?thesis by (simp add: refreshPeriodically_flagged)
next
  case (Run_one dt f)
  assume "on_grid i t0 p"
  with Run_one show ?thesis by (simp add: on_grid_run_one)
qed

lemma on_grid_run: "on_grid i t0 p \<Longrightarrow> on_grid i t0 (run p acts)"
  unfolding run_def
  by (induction acts arbitrary: p) (simp_all add: on_grid_step del: step.simps)


text \<open>
  A turn of the io_service in which the refresh throws or the re-arm reports an error
  either invokes no handler or leaves none queued.
\<close>

lemma failed_tick_stops_chain:
  assumes "well_scheduled p" and "refresh_throws env \<or> errc env \<noteq> 0"
  shows "outstanding (run_one dt env p) = 0 \<or> calls (run_one dt env p) = calls p"
proof (cases "timer p")
  case None
  then show ?thesis by (simp add: run_one_def)
next
  case (Some t)
  show ?thesis
  proof (cases "next_handler (clock p + int dt) t")
    case None
    with Some show ?thesis by (simp add: run_one_def del: next_handler.simps)
  next
    case hd: (Some ht)
    obtain h t' where ht: "ht = (h, t')" by (cases ht)
    obtain j where h: "h = PeriodicExecution j" by (cases h)
    from dispatch_leaves_none [OF assms(1) Some hd [unfolded ht]]
    have "waiting t' = [] \<and> cancelled t' = []" .
    with Some hd ht h assms(2) have "outstanding (run_one dt env p) = 0"
      by (auto simp add: run_one_def schedulePeriodicExecution_refresh outstanding_def Let_def
          simp del: next_handler.simps)
    then show ?thesis ..
  qed
qed

subsection \<open>The scheduler\<close>

text \<open>
  C2, as amended: an exception of the callback never leaves
  \<^verbatim>\<open>schedulePeriodicExecution\<close>, which always returns normally; the next tick is armed
  exactly when the callback returned and \<^verbatim>\<open>expires_at\<close> reported no error, and
  otherwise the timer is left as it was, with no new wait on it. Only an error of
  \<^verbatim>\<open>expires_at\<close> is logged; for an exception of the callback the state is the one
  the callback left, and a wait that was started is the only other change.
\<close>

theorem tick_failure_contained:
  "fst (schedulePeriodicExecution t i cb ec p) = Returned \<and>
   fst (snd (schedulePeriodicExecution t i cb ec p)) =
     (if fst (cb p) = Returned \<and> ec = 0
      then async_wait (PeriodicExecution i) (set_expires_at (expiry t + i) 0 t)
      else t) \<and>
   snd (snd (schedulePeriodicExecution t i cb ec p)) =
     (if fst (cb p) = Returned \<and> ec \<noteq> 0
      then (snd (cb p))\<lparr>errlog := errlog (snd (cb p)) @ [ec]\<rparr>
      else if fst (cb p) = Returned
      then (snd (cb p))\<lparr>events := events (snd (cb p)) @ [Wait_started (expiry t + i)]\<rparr>
      else snd (cb p))"
  by (cases "cb p"; cases "fst (cb p)")
     (simp_all add: schedulePeriodicExecution_def set_expires_at_def Let_def)

text \<open>
  C2 as stated fails: after the first call one handler is queued; when the io_service
  invokes it 40 seconds later and the refresh throws, both strategy functions have been
  called a second time and no handler is queued any more, also 100 seconds later.
\<close>

theorem failed_tick_not_rearmed_counterexample:
  "outstanding (run initial [Call_refreshPeriodically 20 quiet_tick]) = 1 \<and>
   outstanding (run initial [Call_refreshPeriodically 20 quiet_tick,
      Run_one 40 throwing_tick]) = 0 \<and>
   calls (run initial [Call_refreshPeriodically 20 quiet_tick, Run_one 40 throwing_tick]) =
     [Advisory_refresh, LinkBased_refresh, Advisory_refresh, LinkBased_refresh] \<and>
   run initial [Call_refreshPeriodically 20 quiet_tick, Run_one 40 throwing_tick,
      Run_one 100 quiet_tick] =
     (run initial [Call_refreshPeriodically 20 quiet_tick, Run_one 40 throwing_tick])
       \<lparr>clock := 140\<rparr>"
  by (simp add: run_def refreshPeriodically_def run_one_def schedulePeriodicExecution_refresh
      initial_def quiet_tick_def throwing_tick_def outstanding_def async_wait_def
      set_expires_at_def Let_def)




text \<open>
  C5, as amended: the events of every run of a fresh process are orderly, so a refresh
  begins only when none is running and no wait is outstanding, the next wait is started
  only after the refresh has ended, and a wait completes no earlier than its expiry time;
  at most one handler is queued. The waits of a chain started at time \<open>t0\<close> with interval
  \<open>i\<close> expire at \<open>t0 + 2 * i\<close>, \<open>t0 + 3 * i\<close>, and so on, on a fixed grid that
  does not depend on how long the refresh runs.
\<close>

theorem ticks_sequential_on_fixed_grid:
  "well_sequenced t0 (events (run (initial\<lparr>clock := t0\<rparr>) acts)) \<and>
   outstanding (run (initial\<lparr>clock := t0\<rparr>) acts) \<le> 1 \<and>
   deadlines (events (run (refreshPeriodically i env (initial\<lparr>clock := t0\<rparr>)) acts)) =
     map (\<lambda>k. t0 + i * (int k + 2))
       [0..<length (deadlines (events (run (refreshPeriodically i env (initial\<lparr>clock := t0\<rparr>)) acts)))]"
proof (intro conjI)
  have "in_sequence t0 (run (initial\<lparr>clock := t0\<rparr>) acts)"
    by (rule in_sequence_run) (rule in_sequence_initial)
  then show "well_sequenced t0 (events (run (initial\<lparr>clock := t0\<rparr>) acts))"
    by (rule in_sequence_well_sequenced)
next
  have "in_sequence t0 (run (initial\<lparr>clock := t0\<rparr>) acts)"
    by (rule in_sequence_run) (rule in_sequence_initial)
  then show "outstanding (run (initial\<lparr>clock := t0\<rparr>) acts) \<le> 1"
    by (auto simp add: in_sequence_def outstanding_def split: option.splits)
next
  have "on_grid i t0 (run (refreshPeriodically i env (initial\<lparr>clock := t0\<rparr>)) acts)"
    by (rule on_grid_run) (rule on_grid_first_call)
  then show "deadlines (events (run (refreshPeriodically i env (initial\<lparr>clock := t0\<rparr>)) acts)) =
     map (\<lambda>k. t0 + i * (int k + 2))
       [0..<length (deadlines (events (run (refreshPeriodically i env (initial\<lparr>clock := t0\<rparr>)) acts)))]"
    by (simp add: on_grid_def)
qed

theorem ticks_sequential_on_fixed_grid_witness:
  "events (run initial [Call_refreshPeriodically 20 slow_tick, Run_one 0 quiet_tick]) =
     [Refresh_began 0, Refresh_ended 50, Wait_started 40,
      Wait_completed 50, Refresh_began 50, Refresh_ended 50, Wait_started 60] \<and>
   well_sequenced 0
     (events (run initial [Call_refreshPeriodically 20 slow_tick, Run_one 0 quiet_tick])) \<and>
   deadlines (events (run initial [Call_refreshPeriodically 20 slow_tick, Run_one 0 quiet_tick])) =
     [40, 60]"
  using ticks_sequential_on_fixed_grid [of 0
      "[Call_refreshPeriodically 20 slow_tick, Run_one 0 quiet_tick]" 20 slow_tick]
    ticks_sequential_on_fixed_grid [of 0 "[Run_one 0 quiet_tick]" 20 slow_tick]
  by (simp add: run_def refreshPeriodically_def run_one_def schedulePeriodicExecution_refresh
      initial_def quiet_tick_def slow_tick_def async_wait_def set_expires_at_def Let_def
      well_sequenced_def)

text \<open>
  C5 as stated fails: with an interval of 20 seconds and a first refresh that runs for 100
  seconds, the waits expire at 40, 60, 80 and 100 whatever the refresh takes, and four
  more executions of the refresh run back to back at time 100.
\<close>

theorem catch_up_ticks_counterexample:
  "ticks (run initial [Call_refreshPeriodically 20 very_slow_tick, Run_one 0 quiet_tick,
      Run_one 0 quiet_tick, Run_one 0 quiet_tick, Run_one 0 quiet_tick]) =
     [(0, 100), (100, 100), (100, 100), (100, 100), (100, 100)] \<and>
   deadlines (events (run initial [Call_refreshPeriodically 20 very_slow_tick,
      Run_one 0 quiet_tick, Run_one 0 quiet_tick, Run_one 0 quiet_tick, Run_one 0 quiet_tick])) =
     [40, 60, 80, 100, 120]"
  by (simp add: run_def refreshPeriodically_def run_one_def schedulePeriodicExecution_refresh
      initial_def quiet_tick_def very_slow_tick_def async_wait_def set_expires_at_def Let_def)

text \<open>
  C10: the flag, once set, stays set through every later call and every turn of the
  io_service, so every later call of \<^verbatim>\<open>refreshPeriodically\<close> changes nothing; and if
  no handler is queued while the flag is set, none is ever queued again and no refresh
  function is ever called again.
\<close>

theorem refreshing_never_restarts:
  "s_isRefreshing p \<Longrightarrow>
   s_isRefreshing (run p acts) \<and>
   refreshPeriodically i env (run p acts) = run p acts \<and>
   (outstanding p = 0 \<longrightarrow> outstanding (run p acts) = 0 \<and> calls (run p acts) = calls p)"
  by (simp add: run_keeps_flag refreshPeriodically_flagged run_stopped)

theorem refreshing_never_restarts_witness:
  "s_isRefreshing (refreshPeriodically 20 throwing_tick initial) \<and>
   outstanding (refreshPeriodically 20 throwing_tick initial) = 0 \<and>
   outstanding (run (refreshPeriodically 20 throwing_tick initial)
      [Call_refreshPeriodically 20 quiet_tick, Run_one 100 quiet_tick]) = 0 \<and>
   calls (run (refreshPeriodically 20 throwing_tick initial)
      [Call_refreshPeriodically 20 quiet_tick, Run_one 100 quiet_tick]) =
     [Advisory_refresh, LinkBased_refresh] \<and>
   s_isRefreshing (refreshPeriodically 20 failing_rearm initial) \<and>
   outstanding (refreshPeriodically 20 failing_rearm initial) = 0 \<and>
   outstanding (run (refreshPeriodically 20 failing_rearm initial)
      [Call_refreshPeriodically 20 quiet_tick, Run_one 100 quiet_tick]) = 0 \<and>
   calls (run (refreshPeriodically 20 failing_rearm initial)
      [Call_refreshPeriodically 20 quiet_tick, Run_one 100 quiet_tick]) =
     [Advisory_refresh, LinkBased_refresh]"
proof -
  have a: "s_isRefreshing (refreshPeriodically 20 throwing_tick initial)"
    "s_isRefreshing (refreshPeriodically 20 failing_rearm initial)"
    by (rule refreshPeriodically_sets_flag)+
  have b: "outstanding (refreshPeriodically 20 throwing_tick initial) = 0"
    "outstanding (refreshPeriodically 20 failing_rearm initial) = 0"
    "calls (refreshPeriodically 20 throwing_tick initial) = [Advisory_refresh, LinkBased_refresh]"
    "calls (refreshPeriodically 20 failing_rearm initial) = [Advisory_refresh, LinkBased_refresh]"
    by (simp_all add: refreshPeriodically_def schedulePeriodicExecution_refresh initial_def
        throwing_tick_def failing_rearm_def outstanding_def Let_def)
  show ?thesis
    using a b
      refreshing_never_restarts [OF a(1),
        of "[Call_refreshPeriodically 20 quiet_tick, Run_one 100 quiet_tick]"]
      refreshing_never_restarts [OF a(2),
        of "[Call_refreshPeriodically 20 quiet_tick, Run_one 100 quiet_tick]"]
    by simp
qed

end
